theory Spec2Isabelle
  imports Main "HOL-Library.Word" "HOL-Library.Sublist"
begin

section \<open>JavaScript strings\<close>

text \<open>
  A JavaScript string is a sequence of 16-bit code units, and every string operation of
  the program (\<^verbatim>\<open>trim\<close>, \<^verbatim>\<open>replace\<close>, \<^verbatim>\<open>toLowerCase\<close>, \<^verbatim>\<open>+\<close>) works on code units.
  String literals of the source are written \<open>js ''...''\<close>.
\<close>

type_synonym jschar = "16 word"
type_synonym jsstring = "jschar list"

definition js :: "string \<Rightarrow> jsstring" where
  "js s = map (\<lambda>c. of_nat (of_char c)) s"

definition dash :: jschar where
  "dash = 0x2D"

definition dollar :: jschar where
  "dollar = 0x24"

definition is_digit :: "jschar \<Rightarrow> bool" where
  "is_digit c = (0x30 \<le> c \<and> c \<le> 0x39)"

definition is_upper :: "jschar \<Rightarrow> bool" where
  "is_upper c = (0x41 \<le> c \<and> c \<le> 0x5A)"

definition is_lower :: "jschar \<Rightarrow> bool" where
  "is_lower c = (0x61 \<le> c \<and> c \<le> 0x7A)"

text \<open>
  The class \<^verbatim>\<open>[a-z0-9]\<close> under the flag \<^verbatim>\<open>i\<close> (no flag \<^verbatim>\<open>u\<close>): the letters of both
  cases and the digits. Canonicalisation never maps a code unit above 127 to one below
  128, so no other code unit belongs to it.
\<close>

definition is_alnum :: "jschar \<Rightarrow> bool" where
  "is_alnum c = (is_lower c \<or> is_upper c \<or> is_digit c)"

text \<open>
  What \<^verbatim>\<open>String.prototype.trim\<close> removes: WhiteSpace (TAB, VT, FF, SP, NBSP, ZWNBSP and
  the space separators) and LineTerminator (LF, CR, LS, PS).
\<close>

definition is_space :: "jschar \<Rightarrow> bool" where
  "is_space c =
     (c = 0x09 \<or> c = 0x0A \<or> c = 0x0B \<or> c = 0x0C \<or> c = 0x0D \<or> c = 0x20 \<or> c = 0xA0
      \<or> c = 0x1680 \<or> (0x2000 \<le> c \<and> c \<le> 0x200A) \<or> c = 0x2028 \<or> c = 0x2029
      \<or> c = 0x202F \<or> c = 0x205F \<or> c = 0x3000 \<or> c = 0xFEFF)"

definition trim :: "jsstring \<Rightarrow> jsstring" where
  "trim s = rev (dropWhile is_space (rev (dropWhile is_space s)))"

text \<open>
  \<^verbatim>\<open>toLowerCase\<close> on the letters A-Z. The program calls it only on the result of the
  three regular-expression replacements of \<^verbatim>\<open>titleToFilename\<close>, which holds letters,
  digits and dashes only (lemma \<open>toLowerCase_argument\<close> below), so the mapping of other
  code units is never used; the model leaves them as they are.
\<close>

definition to_lower_unit :: "jschar \<Rightarrow> jschar" where
  "to_lower_unit c = (if is_upper c then c + 0x20 else c)"

definition toLowerCase :: "jsstring \<Rightarrow> jsstring" where
  "toLowerCase s = map to_lower_unit s"

text \<open>\<^verbatim>\<open>.replace(/[^a-z0-9]/gi, '-')\<close>: every code unit outside the class becomes a dash.\<close>

definition replace_non_alnum :: "jsstring \<Rightarrow> jsstring" where
  "replace_non_alnum s = map (\<lambda>c. if is_alnum c then c else dash) s"

text \<open>
  \<^verbatim>\<open>.replace(/-+/g, '-')\<close>: scanning from the left, the greedy match at a dash takes the
  whole run of dashes, which one dash replaces.
\<close>

function replace_dash_runs :: "jsstring \<Rightarrow> jsstring" where
  "replace_dash_runs [] = []"
| "replace_dash_runs (c # cs) =
     (if c = dash then dash # replace_dash_runs (dropWhile (\<lambda>x. x = dash) cs)
      else c # replace_dash_runs cs)"
  by pat_completeness auto
termination
  by (relation "measure length") (auto simp: less_Suc_eq_le length_dropWhile_le)

text \<open>
  \<^verbatim>\<open>.replace(/-$|^-/g, '')\<close>: at each position the alternative \<^verbatim>\<open>-$\<close> (a dash that ends
  the string) is tried before \<^verbatim>\<open>^-\<close> (a dash at index 0); a match is deleted. The flag
  tells whether the position is index 0.
\<close>

fun replace_edge_dash :: "bool \<Rightarrow> jsstring \<Rightarrow> jsstring" where
  "replace_edge_dash at_start [] = []"
| "replace_edge_dash at_start (c # cs) =
     (if c = dash \<and> cs = [] then replace_edge_dash False cs
      else if c = dash \<and> at_start then replace_edge_dash False cs
      else c # replace_edge_dash False cs)"

text \<open>\<^verbatim>\<open>titleToFilename\<close> of \<^verbatim>\<open>index.js\<close> and of the module, the same in both.\<close>

definition titleToFilename :: "jsstring \<Rightarrow> jsstring" where
  "titleToFilename string =
     trim (toLowerCase (replace_edge_dash True (replace_dash_runs (replace_non_alnum (trim string)))))"

subsection \<open>The normalizer as the specification words it\<close>

text \<open>
  The specification's steps: trim; replace every maximal run of characters outside
  \<^verbatim>\<open>[A-Za-z0-9]\<close> with a single dash; strip a leading or trailing dash if present;
  lowercase; trim again.
\<close>

function replace_runs :: "jsstring \<Rightarrow> jsstring" where
  "replace_runs [] = []"
| "replace_runs (c # cs) =
     (if is_alnum c then c # replace_runs cs
      else dash # replace_runs (dropWhile (\<lambda>x. \<not> is_alnum x) cs))"
  by pat_completeness auto
termination
  by (relation "measure length") (auto simp: less_Suc_eq_le length_dropWhile_le)

definition strip_leading_dash :: "jsstring \<Rightarrow> jsstring" where
  "strip_leading_dash s = (case s of [] \<Rightarrow> [] | c # cs \<Rightarrow> if c = dash then cs else s)"

definition strip_trailing_dash :: "jsstring \<Rightarrow> jsstring" where
  "strip_trailing_dash s = (if s \<noteq> [] \<and> last s = dash then butlast s else s)"

definition normalize_spec :: "jsstring \<Rightarrow> jsstring" where
  "normalize_spec s =
     trim (toLowerCase (strip_trailing_dash (strip_leading_dash (replace_runs (trim s)))))"

text \<open>The alphabet of a slug: lowercase letters, digits and the dash.\<close>

definition is_slug_char :: "jschar \<Rightarrow> bool" where
  "is_slug_char c = (is_lower c \<or> is_digit c \<or> c = dash)"

text \<open>The string that \<^verbatim>\<open>toLowerCase\<close> receives, in the specification's wording.\<close>

definition edges_stripped :: "jsstring \<Rightarrow> jsstring" where
  "edges_stripped s = strip_trailing_dash (strip_leading_dash (replace_runs (trim s)))"

section \<open>Replacement by a search string\<close>

text \<open>
  \<^verbatim>\<open>String.prototype.indexOf\<close> from position 0: the least index where the search
  string occurs, \<open>None\<close> for the source's \<^verbatim>\<open>-1\<close>.
\<close>

fun index_of :: "jsstring \<Rightarrow> jsstring \<Rightarrow> nat option" where
  "index_of searchString [] = (if searchString = [] then Some 0 else None)"
| "index_of searchString (c # cs) =
     (if prefix searchString (c # cs) then Some 0
      else map_option Suc (index_of searchString cs))"

definition ampersand :: jschar where
  "ampersand = 0x26"

definition backtick :: jschar where
  "backtick = 0x60"

definition apostrophe :: jschar where
  "apostrophe = 0x27"

definition newline :: jschar where
  "newline = 0x0A"

text \<open>
  GetSubstitution of ECMAScript for a search string, which has no captures: in the
  replacement text \<^verbatim>\<open>$$\<close> stands for a dollar sign, \<^verbatim>\<open>$&\<close> for the matched text,
  \<^verbatim>\<open>$`\<close> for the text before the match and \<^verbatim>\<open>$'\<close> for the text after it; a dollar
  sign before anything else (a digit, \<^verbatim>\<open><\<close>, the end) stays as it is.
\<close>

fun get_substitution :: "jsstring \<Rightarrow> jsstring \<Rightarrow> jsstring \<Rightarrow> jsstring \<Rightarrow> jsstring" where
  "get_substitution matched pre post [] = []"
| "get_substitution matched pre post [c] = [c]"
| "get_substitution matched pre post (c # d # r) =
     (if c = dollar \<and> d = dollar then dollar # get_substitution matched pre post r
      else if c = dollar \<and> d = ampersand then matched @ get_substitution matched pre post r
      else if c = dollar \<and> d = backtick then pre @ get_substitution matched pre post r
      else if c = dollar \<and> d = apostrophe then post @ get_substitution matched pre post r
      else c # get_substitution matched pre post (d # r))"

text \<open>
  \<^verbatim>\<open>string.replace(searchValue, replaceValue)\<close> with two strings: the first occurrence
  of the search string is replaced by the substitution; without an occurrence the string
  is returned as it is.
\<close>

definition js_replace :: "jsstring \<Rightarrow> jsstring \<Rightarrow> jsstring \<Rightarrow> jsstring" where
  "js_replace string searchValue replaceValue =
     (case index_of searchValue string of
        None \<Rightarrow> string
      | Some pos \<Rightarrow>
          take pos string
          @ get_substitution searchValue (take pos string)
              (drop (pos + length searchValue) string) replaceValue
          @ drop (pos + length searchValue) string)"

text \<open>\<^verbatim>\<open>Array.prototype.join\<close> on an array of strings.\<close>

fun join :: "jsstring \<Rightarrow> jsstring list \<Rightarrow> jsstring" where
  "join sep [] = []"
| "join sep [x] = x"
| "join sep (x # y # ys) = x @ sep @ join sep (y # ys)"

section \<open>Pens, pages and the template renderer\<close>

text \<open>A pen reference as the search page yields it: \<^verbatim>\<open>{title, url}\<close>.\<close>

record pen =
  title :: jsstring
  url :: jsstring

text \<open>The object \<^verbatim>\<open>resources\<close> that the second \<^verbatim>\<open>page.evaluate\<close> returns.\<close>

record resources =
  javascript :: "jsstring list"
  css :: "jsstring list"

text \<open>
  What the program observes of a pen's page once \<^verbatim>\<open>page.goto\<close> has loaded it: whether
  an element matching \<^verbatim>\<open>.result-iframe[src^="https"]\<close> appears, the selectors that
  \<^verbatim>\<open>page.click\<close> finds a node for, the \<^verbatim>\<open>.code-wrap .CodeMirror\<close> editors in document
  order (each with the code box it sits in and the text \<^verbatim>\<open>getValue()\<close> returns after the
  clicks), the values of the external-resource inputs in document order, and the two
  screenshots.
\<close>

datatype editor_box = HtmlBox | CssBox | JsBox

record pen_page =
  result_iframe :: bool
  clickable :: "jsstring list"
  editors :: "(editor_box \<times> jsstring) list"
  js_inputs :: "jsstring list"
  css_inputs :: "jsstring list"
  shot_before :: jsstring
  shot_after :: jsstring

text \<open>(3.e) The editors' texts, pushed in document order.\<close>

definition get_content :: "pen_page \<Rightarrow> jsstring list" where
  "get_content pg = map snd (editors pg)"

text \<open>(3.f) The trimmed, non-empty values of the resource inputs, in document order.\<close>

definition get_resources :: "pen_page \<Rightarrow> resources" where
  "get_resources pg =
     \<lparr>javascript = filter (\<lambda>val. val \<noteq> []) (map trim (js_inputs pg)),
      css = filter (\<lambda>val. val \<noteq> []) (map trim (css_inputs pg))\<rparr>"

text \<open>
  \<^verbatim>\<open>content[i] ? content[i] : ''\<close>: an index past the end reads \<^verbatim>\<open>undefined\<close>, which
  is falsy, as the empty string is.
\<close>

definition slot :: "jsstring list \<Rightarrow> nat \<Rightarrow> jsstring" where
  "slot content i = (if i < length content then content ! i else [])"

definition script_tag :: "jsstring \<Rightarrow> jsstring" where
  \<open>script_tag src = js ''<script src="'' @ src @ js ''"></script>''\<close>

definition link_tag :: "jsstring \<Rightarrow> jsstring" where
  \<open>link_tag href = js ''<link rel="stylesheet" href="'' @ href @ js ''">''\<close>

definition script_block :: "jsstring list \<Rightarrow> jsstring" where
  "script_block srcs = join [newline] (map script_tag srcs)"

definition style_block :: "jsstring list \<Rightarrow> jsstring" where
  "style_block hrefs = join [newline] (map link_tag hrefs)"

text \<open>(3.g) The chain of seven \<^verbatim>\<open>replace\<close> calls on the pen template.\<close>

definition render_pen :: "jsstring \<Rightarrow> pen \<Rightarrow> jsstring list \<Rightarrow> resources \<Rightarrow> jsstring" where
  "render_pen penTemplate pen content resources =
     (let h1 = js_replace penTemplate (js ''{{html}}'') (slot content 0);
          h2 = js_replace h1 (js ''{{title}}'') (trim (title pen));
          h3 = js_replace h2 (js ''{{url}}'') (url pen);
          h4 = js_replace h3 (js ''{{style}}'') (slot content 1);
          h5 = js_replace h4 (js ''{{javascript}}'') (slot content 2);
          h6 = js_replace h5 (js ''{{resources.javascript}}'')
                 (script_block (javascript resources))
      in js_replace h6 (js ''{{resources.style}}'') (style_block (css resources)))"

text \<open>The tokens of the pen template, in the order the renderer replaces them.\<close>

definition pen_tokens :: "jsstring list" where
  "pen_tokens =
     [js ''{{html}}'', js ''{{title}}'', js ''{{url}}'', js ''{{style}}'', js ''{{javascript}}'',
      js ''{{resources.javascript}}'', js ''{{resources.style}}'']"

section \<open>The download pipeline\<close>

text \<open>
  The state the pipeline changes: the files on disk (path to content; directories are
  not modelled, and a write always succeeds), the array \<^verbatim>\<open>pens\<close>, and the log of the
  addresses \<^verbatim>\<open>page.goto\<close> was called with. Console output is left out. The web is what
  the browser would show: the scraped result list of each search page and the page of
  each pen, \<open>None\<close> where navigation fails.
\<close>

datatype nav = SearchPage jsstring int | PenPage jsstring

datatype error = NavigationFailed nav | SelectorTimeout | NoNodeForSelector jsstring
  | FileNotFound jsstring

record web =
  search_results :: "jsstring \<Rightarrow> int \<Rightarrow> pen list option"
  pen_pages :: "jsstring \<Rightarrow> pen_page option"

record state =
  files :: "jsstring \<rightharpoonup> jsstring"
  pens :: "pen list"
  visited :: "nav list"

definition existsSync :: "state \<Rightarrow> jsstring \<Rightarrow> bool" where
  "existsSync s path = (files s path \<noteq> None)"

definition writeFileSync :: "jsstring \<Rightarrow> jsstring \<Rightarrow> state \<Rightarrow> state" where
  "writeFileSync path data s = s\<lparr>files := (files s)(path \<mapsto> data)\<rparr>"

definition readFileSync :: "(jsstring \<rightharpoonup> jsstring) \<Rightarrow> jsstring \<Rightarrow> error + jsstring" where
  "readFileSync fs path = (case fs path of None \<Rightarrow> Inl (FileNotFound path) | Some data \<Rightarrow> Inr data)"

text \<open>(3.d) The six clicks, in the source's order; a click without a node rejects.\<close>

definition compile_clicks :: "jsstring list" where
  "compile_clicks =
     [js ''#box-html .editor-actions-right > button'', js ''#html-view-compiled'',
      js ''#box-css .editor-actions-right > button'', js ''#css-view-compiled'',
      js ''#box-js .editor-actions-right > button'', js ''#js-view-compiled'']"

fun click_all :: "pen_page \<Rightarrow> jsstring list \<Rightarrow> error option" where
  "click_all pg [] = None"
| "click_all pg (selector # selectors) =
     (if selector \<in> set (clickable pg) then click_all pg selectors
      else Some (NoNodeForSelector selector))"

text \<open>The body of the loop \<^verbatim>\<open>for (var pen of links)\<close>.\<close>

definition download_pen ::
  "web \<Rightarrow> jsstring \<Rightarrow> jsstring \<Rightarrow> bool \<Rightarrow> jsstring \<Rightarrow> pen \<Rightarrow> state \<Rightarrow> error + state" where
  "download_pen w penTemplate pensPath debug debugPath pen s =
     (let filename = titleToFilename (title pen) @ js ''.html'';
          s1 = s\<lparr>pens := pens s @ [pen]\<rparr>
      in if existsSync s1 (pensPath @ filename) then Inr s1
         else
           (let s2 = s1\<lparr>visited := visited s1 @ [PenPage (url pen)]\<rparr> in
            case pen_pages w (url pen) of
              None \<Rightarrow> Inl (NavigationFailed (PenPage (url pen)))
            | Some pg \<Rightarrow>
                (let s3 = (if debug
                           then writeFileSync (debugPath @ js ''before.png'') (shot_before pg) s2
                           else s2)
                 in if result_iframe pg then
                      (case click_all pg compile_clicks of
                         Some e \<Rightarrow> Inl e
                       | None \<Rightarrow>
                           (let content = get_content pg;
                                resources = get_resources pg;
                                s4 = (if debug
                                      then writeFileSync (debugPath @ js ''after.png'')
                                             (shot_after pg) s3
                                      else s3);
                                html = render_pen penTemplate pen content resources
                            in Inr (writeFileSync (pensPath @ filename) html s4)))
                    else Inl SelectorTimeout)))"

text \<open>\<^verbatim>\<open>download\<close> of the module: the loop over \<^verbatim>\<open>links\<close>; an exception ends the run.\<close>

fun download ::
  "web \<Rightarrow> jsstring \<Rightarrow> jsstring \<Rightarrow> bool \<Rightarrow> jsstring \<Rightarrow> pen list \<Rightarrow> state \<Rightarrow> error + state" where
  "download w penTemplate pensPath debug debugPath [] s = Inr s"
| "download w penTemplate pensPath debug debugPath (pen # links) s =
     (case download_pen w penTemplate pensPath debug debugPath pen s of
        Inl e \<Rightarrow> Inl e
      | Inr s' \<Rightarrow> download w penTemplate pensPath debug debugPath links s')"

text \<open>\<^verbatim>\<open>saveIndex\<close>: one anchor per element of \<^verbatim>\<open>pens\<close>, appended in order.\<close>

definition anchor_open :: "pen \<Rightarrow> jsstring" where
  \<open>anchor_open pen =
     js ''<a href="'' @ titleToFilename (trim (title pen)) @ js ''.html" target="iframe">''\<close>

definition anchor :: "pen \<Rightarrow> jsstring" where
  "anchor pen = anchor_open pen @ trim (title pen) @ js ''</a>''"

definition index_list :: "pen list \<Rightarrow> jsstring" where
  "index_list ps = foldl (\<lambda>list pen. list @ anchor pen) [] ps"

definition saveIndex :: "jsstring \<Rightarrow> jsstring \<Rightarrow> state \<Rightarrow> state" where
  "saveIndex pensPath indexTemplate s =
     writeFileSync (pensPath @ js ''index.html'')
       (js_replace indexTemplate (js ''{{list}}'') (index_list (pens s))) s"

text \<open>The options object of \<^verbatim>\<open>run\<close>; \<^verbatim>\<open>links\<close> is \<open>None\<close> for \<^verbatim>\<open>null\<close>.\<close>

record options =
  searchQuery :: jsstring
  links :: "pen list option"
  pensPath :: jsstring
  debug :: bool
  debugPath :: jsstring
  startPage :: int
  endPage :: int
  penTemplate :: jsstring
  indexTemplate :: jsstring

text \<open>
  The loop \<^verbatim>\<open>for (params.page = startPage; params.page <= endPage; params.page++)\<close>, on
  integer page numbers: search, download the page's pens, save the index.
\<close>

function search_pages ::
  "web \<Rightarrow> options \<Rightarrow> jsstring \<Rightarrow> jsstring \<Rightarrow> int \<Rightarrow> state \<Rightarrow> error + state" where
  "search_pages w opts penText indexText page s =
     (if page \<le> endPage opts then
        (let s1 = s\<lparr>visited := visited s @ [SearchPage (searchQuery opts) page]\<rparr> in
         case search_results w (searchQuery opts) page of
           None \<Rightarrow> Inl (NavigationFailed (SearchPage (searchQuery opts) page))
         | Some found \<Rightarrow>
             (case download w penText (pensPath opts) (debug opts) (debugPath opts) found s1 of
                Inl e \<Rightarrow> Inl e
              | Inr s2 \<Rightarrow>
                  search_pages w opts penText indexText (page + 1)
                    (saveIndex (pensPath opts) indexText s2)))
      else Inr s)"
  by pat_completeness auto
termination
  by (relation "measure (\<lambda>(w, opts, penText, indexText, page, s). nat (endPage opts + 1 - page))")
    auto

text \<open>
  \<^verbatim>\<open>run\<close> of the module: read the two templates, then either page through the search
  or, with direct links, download them and save the index once.
\<close>

definition run :: "web \<Rightarrow> options \<Rightarrow> (jsstring \<rightharpoonup> jsstring) \<Rightarrow> error + state" where
  "run w opts fs =
     (case readFileSync fs (penTemplate opts) of
        Inl e \<Rightarrow> Inl e
      | Inr penText \<Rightarrow>
          (case readFileSync fs (indexTemplate opts) of
             Inl e \<Rightarrow> Inl e
           | Inr indexText \<Rightarrow>
               (let s = \<lparr>files = fs, pens = [], visited = []\<rparr> in
                case links opts of
                  None \<Rightarrow> search_pages w opts penText indexText (startPage opts) s
                | Some given \<Rightarrow>
                    (case download w penText (pensPath opts) (debug opts) (debugPath opts)
                            given s of
                       Inl e \<Rightarrow> Inl e
                     | Inr s' \<Rightarrow> Inr (saveIndex (pensPath opts) indexText s')))))"

text \<open>
  \<^verbatim>\<open>index.js\<close> is the same pipeline with its parameters fixed at the top of the file
  (\<^verbatim>\<open>debug = false\<close>, which leaves its debug branch unused).
\<close>

definition index_js_options :: options where
  "index_js_options =
     \<lparr>searchQuery = js ''flexbox'', links = None, pensPath = js ''pens/'', debug = False,
      debugPath = js ''debug/'', startPage = 1, endPage = 4,
      penTemplate = js ''assets/templates/pen.html'',
      indexTemplate = js ''assets/templates/index.html''\<rparr>"

definition index_js :: "web \<Rightarrow> (jsstring \<rightharpoonup> jsstring) \<Rightarrow> error + state" where
  "index_js w fs = run w index_js_options fs"

section \<open>Notions used to state the properties\<close>

definition lbrace :: jschar where
  "lbrace = 0x7B"










text \<open>The path of a pen's file, and the document the pipeline writes there.\<close>

definition pen_path :: "jsstring \<Rightarrow> pen \<Rightarrow> jsstring" where
  "pen_path dir p = dir @ titleToFilename (title p) @ js ''.html''"





section \<open>A small web, for concrete runs\<close>

text \<open>
  Five pens on two search pages, a page every pen address shows, and templates that
  hold one token each. \<open>pen_index\<close> is a pen whose title is the word Index, \<open>pen_a2\<close>
  one whose slug is that of \<open>pen_a\<close>.
\<close>

definition pen_a :: pen where "pen_a = \<lparr>title = js ''a'', url = js ''u1''\<rparr>"
definition pen_b :: pen where "pen_b = \<lparr>title = js ''b'', url = js ''u2''\<rparr>"
definition pen_c :: pen where "pen_c = \<lparr>title = js ''c'', url = js ''u3''\<rparr>"
definition pen_d :: pen where "pen_d = \<lparr>title = js ''d'', url = js ''u4''\<rparr>"
definition pen_e :: pen where "pen_e = \<lparr>title = js ''e'', url = js ''u5''\<rparr>"
definition pen_index :: pen where "pen_index = \<lparr>title = js ''Index'', url = js ''u3''\<rparr>"
definition pen_a2 :: pen where "pen_a2 = \<lparr>title = js '' A! '', url = js ''u6''\<rparr>"

definition demo_page :: pen_page where
  "demo_page =
     \<lparr>result_iframe = True, clickable = compile_clicks,
      editors = [(HtmlBox, js ''h''), (CssBox, js ''c''), (JsBox, js ''j'')],
      js_inputs = [js '' x.js'', js '' '', js ''y.js''], css_inputs = [js ''z.css''],
      shot_before = [], shot_after = []\<rparr>"

definition demo_web :: web where
  "demo_web =
     \<lparr>search_results =
        (\<lambda>q n. if n = 1 then Some [pen_a, pen_b, pen_c]
               else if n = 2 then Some [pen_d, pen_e] else None),
      pen_pages = (\<lambda>u. Some demo_page)\<rparr>"


definition demo_fs :: "jsstring \<rightharpoonup> jsstring" where
  "demo_fs = [js ''pen.html'' \<mapsto> js ''{{title}}'', js ''index.html'' \<mapsto> js ''{{list}}'']"


definition fresh_state :: state where
  "fresh_state = \<lparr>files = demo_fs, pens = [], visited = []\<rparr>"

definition saved_state :: state where
  "saved_state = \<lparr>files = demo_fs(js ''pens/a.html'' \<mapsto> js ''old''), pens = [], visited = []\<rparr>"

text \<open>A pen page with the markup and the script editor, and no style editor.\<close>

definition page_without_style :: pen_page where
  "page_without_style =
     \<lparr>result_iframe = True, clickable = compile_clicks,
      editors = [(HtmlBox, js ''<p>hi</p>''), (JsBox, js ''alert(1)'')],
      js_inputs = [], css_inputs = [], shot_before = [], shot_after = []\<rparr>"

definition style_web :: web where
  "style_web = \<lparr>search_results = (\<lambda>q n. None), pen_pages = (\<lambda>u. Some page_without_style)\<rparr>"




section \<open>The filename normalizer\<close>

lemma dash_not_alnum: "\<not> is_alnum dash"
  by (simp add: is_alnum_def is_lower_def is_upper_def is_digit_def dash_def)

lemma replace_dash_runs_non_alnum:
  "replace_dash_runs (replace_non_alnum s) = replace_runs s"
proof (induction s rule: replace_runs.induct)
  case 1
  show ?case by (simp add: replace_non_alnum_def)
next
  case (2 c cs)
  have dw: "dropWhile (\<lambda>x. x = dash) (map (\<lambda>c. if is_alnum c then c else dash) cs)
      = map (\<lambda>c. if is_alnum c then c else dash) (dropWhile (\<lambda>x. \<not> is_alnum x) cs)"
    using dash_not_alnum by (induction cs) auto
  show ?case
  proof (cases "is_alnum c")
    case True
    then have "c \<noteq> dash" using dash_not_alnum by auto
    with True 2 show ?thesis by (simp add: replace_non_alnum_def)
  next
    case False
    with 2 dw show ?thesis by (simp add: replace_non_alnum_def)
  qed
qed

lemma replace_edge_dash_False: "replace_edge_dash False s = strip_trailing_dash s"
  by (induction s) (auto simp: strip_trailing_dash_def)

lemma replace_edge_dash_True:
  "replace_edge_dash True s = strip_trailing_dash (strip_leading_dash s)"
  by (cases s) (auto simp: replace_edge_dash_False strip_leading_dash_def strip_trailing_dash_def)

lemma titleToFilename_normalize_spec: "titleToFilename s = normalize_spec s"
  by (simp add: titleToFilename_def normalize_spec_def replace_dash_runs_non_alnum
      replace_edge_dash_True)

text \<open>
  Claim C1. For every input string, \<^verbatim>\<open>titleToFilename\<close> returns what the specification's
  steps return (trim, every maximal run of characters outside \<^verbatim>\<open>[A-Za-z0-9]\<close> replaced
  by one dash, a leading and a trailing dash stripped, lowercased, trimmed); being a HOL
  function it is total and deterministic. The two examples of the specification
  evaluate as stated.
\<close>

theorem C1_titleToFilename_refines_spec:
  "titleToFilename s = normalize_spec s
   \<and> titleToFilename (js ''Flexbox Masonry!!'') = js ''flexbox-masonry''
   \<and> titleToFilename (js ''  --Multi   Space--  '') = js ''multi-space''"
proof -
  have a: "titleToFilename s = normalize_spec s"
    by (rule titleToFilename_normalize_spec)
  have b: "titleToFilename (js ''Flexbox Masonry!!'') = js ''flexbox-masonry''"
    by code_simp
  have c: "titleToFilename (js ''  --Multi   Space--  '') = js ''multi-space''"
    by code_simp
  from a b c show ?thesis by simp
qed

lemma unat_plus32: "c \<le> (0x5A :: 16 word) \<Longrightarrow> unat (c + 0x20) = unat c + 32"
  by (simp add: word_le_nat_alt unat_word_ariths)

lemma to_lower_unit_slug:
  "is_alnum c \<or> c = dash \<Longrightarrow> is_slug_char (to_lower_unit c)"
  unfolding is_alnum_def is_slug_char_def to_lower_unit_def is_lower_def is_upper_def
    is_digit_def dash_def
  by (auto simp: word_le_nat_alt unat_plus32)

lemma to_lower_unit_dash: "to_lower_unit c = dash \<longleftrightarrow> c = dash"
  unfolding to_lower_unit_def is_upper_def dash_def
  by (auto simp: word_le_nat_alt unat_plus32 dest!: arg_cong [where f = unat])

lemma to_lower_unit_id: "is_slug_char c \<Longrightarrow> to_lower_unit c = c"
  unfolding is_slug_char_def to_lower_unit_def is_lower_def is_upper_def is_digit_def dash_def
  by (auto simp: word_le_nat_alt)

lemma slug_char_not_space: "is_slug_char c \<Longrightarrow> \<not> is_space c"
  unfolding is_slug_char_def is_space_def is_lower_def is_digit_def dash_def
  by (auto simp: word_le_nat_alt)

lemma slug_char_alnum_or_dash: "is_slug_char c \<Longrightarrow> (if is_alnum c then c else dash) = c"
  unfolding is_slug_char_def is_alnum_def
  using dash_not_alnum by (auto simp: is_alnum_def)

lemma trim_no_space: "list_all (\<lambda>c. \<not> is_space c) s \<Longrightarrow> trim s = s"
proof -
  assume a: "list_all (\<lambda>c. \<not> is_space c) s"
  then have 1: "dropWhile is_space s = s" by (cases s) auto
  from a have "list_all (\<lambda>c. \<not> is_space c) (rev s)" by (simp add: list_all_iff)
  then have "dropWhile is_space (rev s) = rev s" by (cases "rev s") auto
  with 1 show ?thesis by (simp add: trim_def)
qed

lemma replace_runs_chars: "list_all (\<lambda>c. is_alnum c \<or> c = dash) (replace_runs s)"
  by (induction s rule: replace_runs.induct) auto

lemma replace_runs_head:
  "s = [] \<or> is_alnum (hd s) \<Longrightarrow> \<not> prefix [dash] (replace_runs s)"
  using dash_not_alnum by (cases s) auto

lemma dropWhile_head: "dropWhile P xs = [] \<or> \<not> P (hd (dropWhile P xs))"
  using hd_dropWhile by blast

lemma replace_runs_no_double: "\<not> sublist [dash, dash] (replace_runs s)"
proof (induction s rule: replace_runs.induct)
  case 1
  show ?case by simp
next
  case (2 c cs)
  show ?case
  proof (cases "is_alnum c")
    case True
    then have "c \<noteq> dash" using dash_not_alnum by auto
    with True 2 show ?thesis by (simp add: sublist_Cons_right)
  next
    case False
    let ?r = "dropWhile (\<lambda>x. \<not> is_alnum x) cs"
    have "?r = [] \<or> is_alnum (hd ?r)"
      using dropWhile_head [of "\<lambda>x. \<not> is_alnum x" cs] by simp
    then have "\<not> prefix [dash] (replace_runs ?r)" by (rule replace_runs_head)
    with False 2 show ?thesis by (simp add: sublist_Cons_right)
  qed
qed

text \<open>Stripping the edge dashes of a string without a double dash.\<close>

lemma strip_leading_sublist: "sublist (strip_leading_dash s) s"
  by (cases s) (auto simp: strip_leading_dash_def sublist_Cons_right)

lemma strip_trailing_sublist: "sublist (strip_trailing_dash s) s"
proof (cases "s = []")
  case True
  then show ?thesis by (simp add: strip_trailing_dash_def)
next
  case False
  then have "s = butlast s @ [last s]" by simp
  then have "sublist (butlast s) s" by (metis sublist_append_rightI)
  then show ?thesis by (simp add: strip_trailing_dash_def)
qed

lemma strip_leading_no_prefix:
  "\<not> sublist [dash, dash] s \<Longrightarrow> \<not> prefix [dash] (strip_leading_dash s)"
  by (cases s) (auto simp: strip_leading_dash_def sublist_Cons_right)

lemma no_double_butlast:
  assumes "\<not> sublist [dash, dash] s" "s \<noteq> []" "last s = dash"
  shows "\<not> suffix [dash] (butlast s)"
proof
  assume "suffix [dash] (butlast s)"
  then obtain p where "butlast s = p @ [dash]" by (auto simp: suffix_def)
  with assms have "s = p @ [dash, dash] @ []"
    by (metis append.assoc append_Cons append_Nil append_butlast_last_id)
  then have "sublist [dash, dash] s" by (metis sublist_appendI)
  with assms show False by simp
qed

lemma strip_trailing_no_suffix:
  "\<not> sublist [dash, dash] s \<Longrightarrow> \<not> suffix [dash] (strip_trailing_dash s)"
proof (cases "s \<noteq> [] \<and> last s = dash")
  case True
  assume "\<not> sublist [dash, dash] s"
  with True show ?thesis by (simp add: strip_trailing_dash_def no_double_butlast)
next
  case False
  then have "\<not> suffix [dash] s" by (auto simp: suffix_def)
  moreover from False have "strip_trailing_dash s = s"
    by (auto simp: strip_trailing_dash_def)
  ultimately show ?thesis by simp
qed

lemma strip_trailing_keeps_prefix:
  assumes "\<not> prefix [dash] s"
  shows "\<not> prefix [dash] (strip_trailing_dash s)"
proof
  assume "prefix [dash] (strip_trailing_dash s)"
  moreover have "prefix (strip_trailing_dash s) s"
    by (cases "s = []") (auto simp: strip_trailing_dash_def prefix_def intro: append_butlast_last_id [symmetric])
  ultimately have "prefix [dash] s" by (rule prefix_order.trans)
  with assms show False by simp
qed

lemma dash_to_lower_unit: "dash = to_lower_unit c \<longleftrightarrow> c = dash"
  using to_lower_unit_dash [of c] by auto

lemma toLowerCase_prefix: "prefix [dash] (toLowerCase w) \<Longrightarrow> prefix [dash] w"
  by (cases w) (auto simp: toLowerCase_def dash_to_lower_unit)

lemma toLowerCase_suffix: "suffix [dash] (toLowerCase w) \<Longrightarrow> suffix [dash] w"
  by (auto simp: toLowerCase_def suffix_def map_eq_append_conv dash_to_lower_unit)

lemma toLowerCase_double: "sublist [dash, dash] (toLowerCase w) \<Longrightarrow> sublist [dash, dash] w"
  by (fastforce simp: toLowerCase_def sublist_def map_eq_append_conv append_eq_map_conv dash_to_lower_unit)


lemma edges_stripped_sublist: "sublist (edges_stripped s) (replace_runs (trim s))"
  unfolding edges_stripped_def
  using strip_trailing_sublist strip_leading_sublist sublist_order.order_trans by blast

lemma edges_stripped_chars: "list_all (\<lambda>c. is_alnum c \<or> c = dash) (edges_stripped s)"
  using replace_runs_chars [of "trim s"] set_mono_sublist [OF edges_stripped_sublist [of s]]
  by (auto simp: list_all_iff)

lemma edges_stripped_no_double: "\<not> sublist [dash, dash] (edges_stripped s)"
  using replace_runs_no_double [of "trim s"] edges_stripped_sublist [of s]
    sublist_order.order_trans by blast

lemma edges_stripped_no_prefix: "\<not> prefix [dash] (edges_stripped s)"
  unfolding edges_stripped_def
  by (intro strip_trailing_keeps_prefix strip_leading_no_prefix replace_runs_no_double)

lemma edges_stripped_no_suffix: "\<not> suffix [dash] (edges_stripped s)"
proof -
  have "\<not> sublist [dash, dash] (strip_leading_dash (replace_runs (trim s)))"
    using replace_runs_no_double [of "trim s"] strip_leading_sublist sublist_order.order_trans
    by blast
  then show ?thesis unfolding edges_stripped_def by (rule strip_trailing_no_suffix)
qed

lemma toLowerCase_argument:
  "list_all (\<lambda>c. is_alnum c \<or> c = dash)
     (replace_edge_dash True (replace_dash_runs (replace_non_alnum (trim s))))"
  using edges_stripped_chars [of s]
  by (simp add: replace_dash_runs_non_alnum replace_edge_dash_True edges_stripped_def)

lemma lowered_chars: "list_all is_slug_char (toLowerCase (edges_stripped s))"
  using edges_stripped_chars [of s]
  by (auto simp: list_all_iff toLowerCase_def to_lower_unit_slug)

lemma titleToFilename_lowered: "titleToFilename s = toLowerCase (edges_stripped s)"
proof -
  have "list_all (\<lambda>c. \<not> is_space c) (toLowerCase (edges_stripped s))"
    using lowered_chars [of s] by (auto simp: list_all_iff slug_char_not_space)
  then have "trim (toLowerCase (edges_stripped s)) = toLowerCase (edges_stripped s)"
    by (rule trim_no_space)
  then show ?thesis
    by (simp add: titleToFilename_normalize_spec normalize_spec_def edges_stripped_def)
qed

lemma titleToFilename_chars: "list_all is_slug_char (titleToFilename s)"
  by (simp add: titleToFilename_lowered lowered_chars)

lemma titleToFilename_no_double: "\<not> sublist [dash, dash] (titleToFilename s)"
  using edges_stripped_no_double toLowerCase_double by (auto simp: titleToFilename_lowered)

lemma titleToFilename_no_prefix: "\<not> prefix [dash] (titleToFilename s)"
  using edges_stripped_no_prefix toLowerCase_prefix by (auto simp: titleToFilename_lowered)

lemma titleToFilename_no_suffix: "\<not> suffix [dash] (titleToFilename s)"
  using edges_stripped_no_suffix toLowerCase_suffix by (auto simp: titleToFilename_lowered)

lemma replace_dash_runs_id: "\<not> sublist [dash, dash] r \<Longrightarrow> replace_dash_runs r = r"
proof (induction r)
  case Nil
  show ?case by simp
next
  case (Cons c cs)
  then have a: "\<not> prefix [dash, dash] (c # cs)" and b: "replace_dash_runs cs = cs"
    by (simp_all add: sublist_Cons_right)
  show ?case
  proof (cases "c = dash")
    case True
    with a have "dropWhile (\<lambda>x. x = dash) cs = cs" by (cases cs) auto
    with True b show ?thesis by simp
  next
    case False
    with b show ?thesis by simp
  qed
qed

lemma strip_id:
  assumes "\<not> prefix [dash] r" "\<not> suffix [dash] r"
  shows "strip_trailing_dash (strip_leading_dash r) = r"
proof -
  from assms(1) have "strip_leading_dash r = r"
    by (cases r) (auto simp: strip_leading_dash_def)
  moreover have "strip_trailing_dash r = r"
  proof (cases "r = []")
    case True
    then show ?thesis by (simp add: strip_trailing_dash_def)
  next
    case False
    then have "r = butlast r @ [last r]" by simp
    with assms(2) have "last r \<noteq> dash" by (metis suffixI)
    then show ?thesis by (simp add: strip_trailing_dash_def)
  qed
  ultimately show ?thesis by simp
qed

lemma titleToFilename_fixed:
  assumes chars: "list_all is_slug_char r"
    and dd: "\<not> sublist [dash, dash] r"
    and pre: "\<not> prefix [dash] r"
    and suf: "\<not> suffix [dash] r"
  shows "titleToFilename r = r"
proof -
  from chars have "list_all (\<lambda>c. \<not> is_space c) r"
    by (auto simp: list_all_iff slug_char_not_space)
  then have t: "trim r = r" by (rule trim_no_space)
  from chars have n: "replace_non_alnum r = r"
    by (auto simp: replace_non_alnum_def list_all_iff slug_char_alnum_or_dash intro: map_idI)
  from chars have l: "toLowerCase r = r"
    by (auto simp: toLowerCase_def list_all_iff to_lower_unit_id intro: map_idI)
  show ?thesis
    unfolding titleToFilename_def
    by (simp add: t n replace_dash_runs_id [OF dd] replace_edge_dash_True strip_id [OF pre suf] l)
qed

text \<open>
  Claim C2. For every input string the slug holds only lowercase letters, digits and
  dashes, no two dashes are adjacent, it neither begins nor ends with a dash, and
  normalizing a slug gives the slug back.
\<close>

theorem C2_slug_shape_and_idempotent:
  "list_all is_slug_char (titleToFilename s)
   \<and> \<not> sublist [dash, dash] (titleToFilename s)
   \<and> \<not> prefix [dash] (titleToFilename s)
   \<and> \<not> suffix [dash] (titleToFilename s)
   \<and> titleToFilename (titleToFilename s) = titleToFilename s"
  using titleToFilename_chars titleToFilename_no_double titleToFilename_no_prefix
    titleToFilename_no_suffix titleToFilename_fixed by blast

section \<open>Searching and replacing\<close>

lemma index_of_None: "index_of p s = None \<longleftrightarrow> \<not> sublist p s"
  by (induction s) (auto simp: sublist_Cons_right)




lemma index_of_first:
  assumes "prefix p (drop i s)" "i \<le> length s" "\<forall>j<i. \<not> prefix p (drop j s)"
  shows "index_of p s = Some i"
  using assms
proof (induction s arbitrary: i)
  case Nil
  then show ?case by simp
next
  case (Cons c cs)
  show ?case
  proof (cases i)
    case 0
    with Cons.prems show ?thesis by simp
  next
    case (Suc i')
    with Cons.prems have np: "\<not> prefix p (c # cs)" by (metis drop0 zero_less_Suc)
    have "\<forall>j<i'. \<not> prefix p (drop j cs)"
    proof (intro allI impI)
      fix j assume "j < i'"
      then have "Suc j < i" using Suc by simp
      with Cons.prems(3) have "\<not> prefix p (drop (Suc j) (c # cs))" by blast
      then show "\<not> prefix p (drop j cs)" by simp
    qed
    with Cons.IH [of i'] Cons.prems Suc have "index_of p cs = Some i'" by simp
    with np Suc show ?thesis by simp
  qed
qed





lemma prefix_drop_length:
  "prefix p (drop i s) \<Longrightarrow> p \<noteq> [] \<Longrightarrow> i + length p \<le> length s"
proof -
  assume a: "prefix p (drop i s)" "p \<noteq> []"
  then have "length p \<le> length s - i" by (metis prefix_length_le length_drop)
  moreover from a have "i < length s" by (cases "i < length s") auto
  ultimately show ?thesis by simp
qed




section \<open>Template tokens\<close>

lemma pen_tokens_unfold:
  "js ''{{html}}'' = [123, 123, 104, 116, 109, 108, 125, 125]"
  "js ''{{title}}'' = [123, 123, 116, 105, 116, 108, 101, 125, 125]"
  "js ''{{url}}'' = [123, 123, 117, 114, 108, 125, 125]"
  "js ''{{style}}'' = [123, 123, 115, 116, 121, 108, 101, 125, 125]"
  "js ''{{javascript}}'' = [123, 123, 106, 97, 118, 97, 115, 99, 114, 105, 112, 116, 125, 125]"
  "js ''{{resources.javascript}}'' =
     [123, 123, 114, 101, 115, 111, 117, 114, 99, 101, 115, 46, 106, 97, 118, 97, 115, 99, 114,
      105, 112, 116, 125, 125]"
  "js ''{{resources.style}}'' =
     [123, 123, 114, 101, 115, 111, 117, 114, 99, 101, 115, 46, 115, 116, 121, 108, 101, 125, 125]"
  "js ''{{list}}'' = [123, 123, 108, 105, 115, 116, 125, 125]"
  by (simp_all add: js_def)

















lemma pen_tokens_distinct: "distinct pen_tokens"
  by (simp add: pen_tokens_def pen_tokens_unfold)




section \<open>The pipeline\<close>

lemma index_list_concat: "index_list ps = concat (map anchor ps)"
proof -
  have "foldl (\<lambda>list pen. list @ anchor pen) acc ps = acc @ concat (map anchor ps)" for acc
    by (induction ps arbitrary: acc) auto
  then show ?thesis by (simp add: index_list_def)
qed

lemma index_list_append: "index_list (xs @ ys) = index_list xs @ index_list ys"
  by (simp add: index_list_concat)







lemma download_pen_exists:
  assumes "files s (pen_path dir p) = Some old"
  shows "download_pen w tpl dir dbg dd p s = Inr (s\<lparr>pens := pens s @ [p]\<rparr>)"
  using assms by (simp add: download_pen_def pen_path_def existsSync_def Let_def)

lemma download_pen_fresh:
  assumes "files s (pen_path dir p) = None" "pen_pages w (url p) = Some pg"
    "result_iframe pg" "click_all pg compile_clicks = None"
  shows "download_pen w tpl dir dbg dd p s =
    Inr (s\<lparr>pens := pens s @ [p], visited := visited s @ [PenPage (url p)],
           files := (if dbg
                     then (files s)(dd @ js ''before.png'' \<mapsto> shot_before pg,
                                     dd @ js ''after.png'' \<mapsto> shot_after pg)
                     else files s)
                    (pen_path dir p \<mapsto> render_pen tpl p (get_content pg) (get_resources pg))\<rparr>)"
  using assms
  by (simp add: download_pen_def pen_path_def existsSync_def Let_def writeFileSync_def)




lemma get_substitution_plain_prefix:
  "dollar \<notin> set x \<Longrightarrow> get_substitution m a b (x @ B) = x @ get_substitution m a b B"
proof (induction x)
  case Nil
  show ?case by simp
next
  case (Cons c x)
  then have c: "c \<noteq> dollar" and ih: "get_substitution m a b (x @ B) = x @ get_substitution m a b B"
    by auto
  show ?case
  proof (cases "x @ B")
    case Nil
    then show ?thesis by simp
  next
    case (Cons d r)
    with c ih show ?thesis by simp
  qed
qed

lemma special_chars_distinct:
  "ampersand \<noteq> dollar" "backtick \<noteq> dollar" "apostrophe \<noteq> dollar"
  "backtick \<noteq> ampersand" "apostrophe \<noteq> ampersand" "apostrophe \<noteq> backtick"
  by (simp_all add: ampersand_def dollar_def backtick_def apostrophe_def)

text \<open>
  A stretch of the replacement text without a dollar sign, and not starting with a
  character that completes a dollar pattern, is copied as it is.
\<close>

lemma get_substitution_keeps:
  assumes "dollar \<notin> set x" "x \<noteq> []" "hd x \<noteq> ampersand" "hd x \<noteq> backtick" "hd x \<noteq> apostrophe"
  shows "\<exists>A'. get_substitution m a b (A @ x @ B) = A' @ x @ get_substitution m a b B"
proof (induction A rule: length_induct)
  case (1 A)
  from assms obtain h x' where x: "x = h # x'" and h: "h \<noteq> dollar" "h \<noteq> ampersand"
    "h \<noteq> backtick" "h \<noteq> apostrophe"
    by (cases x) auto
  have plain: "get_substitution m a b (x @ B) = x @ get_substitution m a b B"
    using assms(1) by (rule get_substitution_plain_prefix)
  consider (none) "A = []" | (one) c where "A = [c]" | (more) c d r where "A = c # d # r"
    by (cases A; cases "tl A") auto
  then show ?case
  proof cases
    case none
    with plain show ?thesis by auto
  next
    case (one c)
    then have "get_substitution m a b (A @ x @ B) = c # get_substitution m a b (x @ B)"
      using x h by simp
    with plain one show ?thesis by auto
  next
    case (more c d r)
    then have A: "A = c # d # r" by simp
    have "length r < length A" "length (d # r) < length A" using A by simp_all
    with "1.IH" have "\<exists>R. get_substitution m a b (r @ x @ B) = R @ x @ get_substitution m a b B"
      and "\<exists>R'. get_substitution m a b ((d # r) @ x @ B) = R' @ x @ get_substitution m a b B"
      by blast+
    then obtain R R' where R: "get_substitution m a b (r @ x @ B) = R @ x @ get_substitution m a b B"
      and R': "get_substitution m a b ((d # r) @ x @ B) = R' @ x @ get_substitution m a b B"
      by blast
    consider (dd) "c = dollar \<and> d = dollar" | (amp) "c = dollar \<and> d = ampersand"
      | (bt) "c = dollar \<and> d = backtick"
      | (ap) "c = dollar \<and> d = apostrophe"
      | (other) "\<not> (c = dollar \<and> (d = dollar \<or> d = ampersand \<or> d = backtick \<or> d = apostrophe))"
      by blast
    then show ?thesis
    proof cases
      case dd
      with A R have "get_substitution m a b (A @ x @ B) = (dollar # R) @ x @ get_substitution m a b B"
        by simp
      then show ?thesis by blast
    next
      case amp
      with A R have "get_substitution m a b (A @ x @ B) = (m @ R) @ x @ get_substitution m a b B"
        by (simp add: special_chars_distinct)
      then show ?thesis by blast
    next
      case bt
      with A R have "get_substitution m a b (A @ x @ B) = (a @ R) @ x @ get_substitution m a b B"
        by (simp add: special_chars_distinct)
      then show ?thesis by blast
    next
      case ap
      with A R have "get_substitution m a b (A @ x @ B) = (b @ R) @ x @ get_substitution m a b B"
        by (simp add: special_chars_distinct)
      then show ?thesis by blast
    next
      case other
      with A R' have "get_substitution m a b (A @ x @ B) = (c # R') @ x @ get_substitution m a b B"
        by auto
      then show ?thesis by blast
    qed
  qed
qed

lemma js_replace_keeps_plain:
  assumes "sublist p s" "dollar \<notin> set x" "x \<noteq> []" "hd x \<noteq> ampersand" "hd x \<noteq> backtick"
    "hd x \<noteq> apostrophe"
  shows "sublist x (js_replace s p (A @ x @ B))"
proof -
  from assms(1) obtain i where i: "index_of p s = Some i"
    using index_of_None [of p s] by (cases "index_of p s") auto
  obtain A' where "get_substitution p (take i s) (drop (i + length p) s) (A @ x @ B)
      = A' @ x @ get_substitution p (take i s) (drop (i + length p) s) B"
    using get_substitution_keeps [OF assms(2-6)] by blast
  with i have "js_replace s p (A @ x @ B) = (take i s @ A') @ x @
      (get_substitution p (take i s) (drop (i + length p) s) B @ drop (i + length p) s)"
    by (simp add: js_replace_def)
  then show ?thesis by (metis sublist_appendI)
qed

lemma slug_no_dollar: "dollar \<notin> set (titleToFilename s)"
proof
  assume "dollar \<in> set (titleToFilename s)"
  with titleToFilename_chars [of s] have "is_slug_char dollar" by (auto simp: list_all_iff)
  then show False
    by (simp add: is_slug_char_def is_lower_def is_digit_def dash_def dollar_def)
qed

lemma slug_no_lbrace: "lbrace \<notin> set (titleToFilename s)"
proof
  assume "lbrace \<in> set (titleToFilename s)"
  with titleToFilename_chars [of s] have "is_slug_char lbrace" by (auto simp: list_all_iff)
  then show False
    by (simp add: is_slug_char_def is_lower_def is_digit_def dash_def lbrace_def)
qed

lemma anchor_open_plain:
  "dollar \<notin> set (anchor_open p)" "anchor_open p \<noteq> []" "hd (anchor_open p) \<noteq> ampersand"
  "hd (anchor_open p) \<noteq> backtick" "hd (anchor_open p) \<noteq> apostrophe"
  using slug_no_dollar [of "trim (title p)"]
  by (simp_all add: anchor_open_def js_def dollar_def ampersand_def backtick_def apostrophe_def)

lemma trim_set: "set (trim s) \<subseteq> set s"
proof -
  have "set (trim s) = set (dropWhile is_space (rev (dropWhile is_space s)))"
    by (simp add: trim_def)
  also have "\<dots> \<subseteq> set (rev (dropWhile is_space s))" by (auto dest: set_dropWhileD)
  also have "\<dots> \<subseteq> set s" by (auto dest: set_dropWhileD)
  finally show ?thesis .
qed

lemma anchor_plain:
  assumes "dollar \<notin> set (title p)"
  shows "dollar \<notin> set (anchor p)" "anchor p \<noteq> []" "hd (anchor p) \<noteq> ampersand"
    "hd (anchor p) \<noteq> backtick" "hd (anchor p) \<noteq> apostrophe"
proof -
  have "dollar \<notin> set (trim (title p))" using assms trim_set by blast
  moreover have "dollar \<notin> set (js ''</a>'')" by (simp add: js_def dollar_def)
  ultimately show "dollar \<notin> set (anchor p)"
    using anchor_open_plain(1) [of p] by (simp add: anchor_def)
  show "anchor p \<noteq> []" using anchor_open_plain(2) [of p] by (simp add: anchor_def)
  show "hd (anchor p) \<noteq> ampersand" "hd (anchor p) \<noteq> backtick" "hd (anchor p) \<noteq> apostrophe"
    using anchor_open_plain [of p] by (simp_all add: anchor_def)
qed

lemma index_list_split:
  assumes "p \<in> set ps"
  shows "\<exists>A B. index_list ps = A @ anchor p @ B"
proof -
  from assms obtain xs ys where "ps = xs @ p # ys" by (meson split_list)
  then have "index_list ps = index_list xs @ anchor p @ index_list ys"
    by (simp add: index_list_concat)
  then show ?thesis by blast
qed

lemma saveIndex_file:
  "files (saveIndex dir itpl s) (dir @ js ''index.html'')
     = Some (js_replace itpl (js ''{{list}}'') (index_list (pens s)))"
  by (simp add: saveIndex_def writeFileSync_def)

text \<open>
  Claim C3. A pen whose file exists when it is processed is only appended to the
  collection: the loop body returns the state with \<open>pens\<close> extended and nothing else
  changed, so there is no navigation and no write. Every pen of the collection has its
  anchor in the index that \<open>saveIndex\<close> writes from a template holding the list token:
  the opening tag with the pen's file name as it is, and the whole anchor when the title
  has no dollar sign.
\<close>

theorem C3_existing_pen_only_listed:
  "(files s (pen_path dir p) = Some old \<longrightarrow>
      download_pen w tpl dir dbg dd p s = Inr (s\<lparr>pens := pens s @ [p]\<rparr>)
      \<and> (\<forall>s'. download_pen w tpl dir dbg dd p s = Inr s' \<longrightarrow>
            files s' = files s \<and> visited s' = visited s \<and> pens s' = pens s @ [p]))
   \<and> (p \<in> set (pens s2) \<and> sublist (js ''{{list}}'') itpl \<longrightarrow>
        (\<exists>txt. files (saveIndex dir itpl s2) (dir @ js ''index.html'') = Some txt
           \<and> sublist (anchor_open p) txt
           \<and> (dollar \<notin> set (title p) \<longrightarrow> sublist (anchor p) txt)))"
proof (intro conjI impI)
  assume "files s (pen_path dir p) = Some old"
  then show a: "download_pen w tpl dir dbg dd p s = Inr (s\<lparr>pens := pens s @ [p]\<rparr>)"
    by (rule download_pen_exists)
  show "\<forall>s'. download_pen w tpl dir dbg dd p s = Inr s' \<longrightarrow>
            files s' = files s \<and> visited s' = visited s \<and> pens s' = pens s @ [p]"
    unfolding a by auto
next
  assume h: "p \<in> set (pens s2) \<and> sublist (js ''{{list}}'') itpl"
  then obtain A B where ab: "index_list (pens s2) = A @ anchor p @ B"
    using index_list_split by blast
  let ?txt = "js_replace itpl (js ''{{list}}'') (index_list (pens s2))"
  have "index_list (pens s2) = A @ anchor_open p @ (trim (title p) @ js ''</a>'' @ B)"
    using ab by (simp add: anchor_def)
  then have 1: "sublist (anchor_open p) ?txt"
    using js_replace_keeps_plain [OF _ anchor_open_plain, of "js ''{{list}}''" itpl p A] h by simp
  have 2: "dollar \<notin> set (title p) \<longrightarrow> sublist (anchor p) ?txt"
    using js_replace_keeps_plain [OF _ anchor_plain, of "js ''{{list}}''" itpl p A B] h ab by simp
  from 1 2 show "\<exists>txt. files (saveIndex dir itpl s2) (dir @ js ''index.html'') = Some txt
           \<and> sublist (anchor_open p) txt
           \<and> (dollar \<notin> set (title p) \<longrightarrow> sublist (anchor p) txt)"
    by (simp add: saveIndex_file)
qed







section \<open>Concrete runs\<close>

lemma demo_slugs:
  "titleToFilename (title pen_a) = js ''a''" "titleToFilename (title pen_b) = js ''b''"
  "titleToFilename (title pen_c) = js ''c''" "titleToFilename (title pen_d) = js ''d''"
  "titleToFilename (title pen_e) = js ''e''" "titleToFilename (title pen_index) = js ''index''"
  "titleToFilename (title pen_a2) = js ''a''"
  by code_simp+

lemma demo_paths:
  "pen_path (js ''pens/'') pen_a = js ''pens/a.html''"
  "pen_path (js ''pens/'') pen_b = js ''pens/b.html''"
  "pen_path (js ''pens/'') pen_c = js ''pens/c.html''"
  "pen_path (js ''pens/'') pen_d = js ''pens/d.html''"
  "pen_path (js ''pens/'') pen_e = js ''pens/e.html''"
  "pen_path (js ''pens/'') pen_index = js ''pens/index.html''"
  "pen_path (js ''pens/'') pen_a2 = js ''pens/a.html''"
  by (simp_all add: pen_path_def demo_slugs) (simp_all add: js_def)


lemma demo_fs_fresh:
  "demo_fs (js ''pens/a.html'') = None" "demo_fs (js ''pens/b.html'') = None"
  "demo_fs (js ''pens/c.html'') = None" "demo_fs (js ''pens/d.html'') = None"
  "demo_fs (js ''pens/e.html'') = None" "demo_fs (js ''pens/index.html'') = None"
  by (simp_all add: demo_fs_def js_def)

lemma demo_urls:
  "url pen_a = js ''u1''" "url pen_b = js ''u2''" "url pen_c = js ''u3''" "url pen_d = js ''u4''"
  "url pen_e = js ''u5''" "url pen_index = js ''u3''"
  by (simp_all add: pen_a_def pen_b_def pen_c_def pen_d_def pen_e_def pen_index_def)



theorem C3_witness:
  \<open>download_pen demo_web (js ''{{title}}'') (js ''pens/'') False (js ''debug/'') pen_a saved_state
     = Inr (saved_state\<lparr>pens := [pen_a]\<rparr>)
   \<and> (\<exists>txt. files (saveIndex (js ''pens/'') (js ''<ul>{{list}}</ul>'') (saved_state\<lparr>pens := [pen_a]\<rparr>))
              (js ''pens/'' @ js ''index.html'') = Some txt
         \<and> sublist (js ''<a href="a.html" target="iframe">a</a>'') txt)\<close>
proof -
  have h1: "files saved_state (pen_path (js ''pens/'') pen_a) = Some (js ''old'')"
    by (simp add: demo_paths saved_state_def)
  have h2: "pen_a \<in> set (pens (saved_state\<lparr>pens := [pen_a]\<rparr>))
            \<and> sublist (js ''{{list}}'') (js ''<ul>{{list}}</ul>'')"
    by (simp add: js_def sublist_Cons_right)
  have h3: "dollar \<notin> set (title pen_a)"
    by (simp add: pen_a_def js_def dollar_def)
  have a: \<open>anchor pen_a = js ''<a href="a.html" target="iframe">a</a>''\<close>
    by code_simp
  have ps: "pens saved_state @ [pen_a] = [pen_a]"
    by (simp add: saved_state_def)
  note T = C3_existing_pen_only_listed [of saved_state "js ''pens/''" pen_a "js ''old''" demo_web
      "js ''{{title}}''" False "js ''debug/''" "saved_state\<lparr>pens := [pen_a]\<rparr>" "js ''<ul>{{list}}</ul>''"]
  from T h1 have "download_pen demo_web (js ''{{title}}'') (js ''pens/'') False (js ''debug/'') pen_a
      saved_state = Inr (saved_state\<lparr>pens := pens saved_state @ [pen_a]\<rparr>)"
    by blast
  then have c1: "download_pen demo_web (js ''{{title}}'') (js ''pens/'') False (js ''debug/'') pen_a
      saved_state = Inr (saved_state\<lparr>pens := [pen_a]\<rparr>)"
    by (simp only: ps)
  from T h2 h3 have "\<exists>txt. files (saveIndex (js ''pens/'') (js ''<ul>{{list}}</ul>'')
        (saved_state\<lparr>pens := [pen_a]\<rparr>)) (js ''pens/'' @ js ''index.html'') = Some txt
      \<and> sublist (anchor pen_a) txt"
    by blast
  then have c2: \<open>\<exists>txt. files (saveIndex (js ''pens/'') (js ''<ul>{{list}}</ul>'')
        (saved_state\<lparr>pens := [pen_a]\<rparr>)) (js ''pens/'' @ js ''index.html'') = Some txt
      \<and> sublist (js ''<a href="a.html" target="iframe">a</a>'') txt\<close>
    by (simp only: a)
  from c1 c2 show ?thesis by (rule conjI)
qed


section \<open>The template renderer\<close>







text \<open>
  Claim C8. The editors' texts are pushed in document order, so the slot a text lands in
  is its position among the editors present, not the kind of its editor. On a page with
  the markup and the script editor and no style editor, the script text is the second
  element of \<open>content\<close>: it is rendered in the place of the style token, the
  javascript token renders empty, and the loop body writes that document to the pen's
  file.
\<close>

theorem C8_script_lands_in_style_slot:
  "get_content page_without_style = [js ''<p>hi</p>'', js ''alert(1)'']
   \<and> render_pen (js ''<style>{{style}}</style><script>{{javascript}}</script>'') pen_a
        (get_content page_without_style) (get_resources page_without_style)
       = js ''<style>alert(1)</style><script></script>''
   \<and> download_pen style_web (js ''<style>{{style}}</style><script>{{javascript}}</script>'')
        (js ''pens/'') False (js ''debug/'') pen_a fresh_state
       = Inr \<lparr>files = demo_fs(js ''pens/a.html'' \<mapsto> js ''<style>alert(1)</style><script></script>''),
              pens = [pen_a], visited = [PenPage (js ''u1'')]\<rparr>"
proof -
  let ?tpl = "js ''<style>{{style}}</style><script>{{javascript}}</script>''"
  have c: "get_content page_without_style = [js ''<p>hi</p>'', js ''alert(1)'']"
    by code_simp
  have r: "render_pen ?tpl pen_a (get_content page_without_style) (get_resources page_without_style)
      = js ''<style>alert(1)</style><script></script>''"
    by code_simp
  have fresh: "files fresh_state (pen_path (js ''pens/'') pen_a) = None"
    by (simp add: demo_paths fresh_state_def demo_fs_fresh)
  have pg: "pen_pages style_web (url pen_a) = Some page_without_style"
    "result_iframe page_without_style" "click_all page_without_style compile_clicks = None"
    by (simp_all add: style_web_def page_without_style_def compile_clicks_def)
  have d: "download_pen style_web ?tpl (js ''pens/'') False (js ''debug/'') pen_a fresh_state
      = Inr \<lparr>files = demo_fs(js ''pens/a.html'' \<mapsto> js ''<style>alert(1)</style><script></script>''),
              pens = [pen_a], visited = [PenPage (js ''u1'')]\<rparr>"
    unfolding download_pen_fresh [OF fresh pg]
    by (simp add: r demo_paths fresh_state_def demo_urls)
  from c r d show ?thesis by blast
qed




































section \<open>Runs over search pages\<close>




















end
